theory Spec2Isabelle
  imports Complex_Main "HOL-Library.Multiset"
begin

section \<open>Data model\<close>

text \<open>
  The script \<^verbatim>\<open>app.py\<close> works on pandas data frames. A data frame is modelled as
  the list of its rows, in row order; every column the script reads is a field of the row
  record. Numeric columns (\<^verbatim>\<open>Quantity\<close>, \<^verbatim>\<open>UnitPrice\<close>, \<^verbatim>\<open>TotalPrice\<close>,
  \<^verbatim>\<open>Monetary\<close> and the bin edges of \<^verbatim>\<open>qcut\<close>) are exact rationals: the rounding of
  float64 arithmetic is not part of this model. \<^verbatim>\<open>InvoiceDate\<close> is the parsed
  timestamp, in nanoseconds since the epoch (the text parsing of \<^verbatim>\<open>pd.to_datetime\<close>
  is outside the model). A missing \<^verbatim>\<open>CustomerID\<close> (NaN) is \<open>None\<close>.
\<close>

datatype error =
    MissingColumns "string set"
  | BinEdgesNotUnique
  | LabelsLengthMismatch
  | CannotConvertNaN

record 'c keyed =
  CustomerID :: 'c

record 'c txn = "'c keyed" +
  InvoiceNo :: string
  Quantity :: rat
  UnitPrice :: rat
  InvoiceDate :: int
  Country :: string

record sale = "int txn" +
  TotalPrice :: rat

record dataframe =
  columns :: "string list"
  rows :: "rat option txn list"

record rfm_row = "int keyed" +
  Recency :: int
  Frequency :: nat
  Monetary :: rat

record scored_row = rfm_row +
  R_Score :: int
  F_Score :: int
  M_Score :: int
  RFM_Score :: string

record segment_row = scored_row +
  Segment :: string
  Suggested_Action :: "string option"

record report_row = segment_row +
  rfm_Country :: "string option"

section \<open>Validation of the required columns (lines 43 to 46)\<close>

definition required_cols :: "string set" where
  "required_cols = {''InvoiceNo'', ''Quantity'', ''UnitPrice'', ''InvoiceDate'', ''CustomerID''}"

text \<open>
  \<^verbatim>\<open>st.error\<close> shows the set difference and \<^verbatim>\<open>st.stop()\<close> ends the script run: the
  error value carries the set that the message prints.
\<close>

definition validate :: "dataframe \<Rightarrow> error + dataframe" where
  "validate df =
     (if \<not> required_cols \<subseteq> set (columns df)
      then Inl (MissingColumns (required_cols - set (columns df)))
      else Inr df)"

section \<open>Preprocessing (lines 50 to 53)\<close>

text \<open>\<^verbatim>\<open>astype(int)\<close> on a float column truncates towards zero.\<close>

definition astype_int :: "rat \<Rightarrow> int" where
  "astype_int x = (if 0 \<le> x then \<lfloor>x\<rfloor> else \<lceil>x\<rceil>)"

fun dropna :: "rat option txn list \<Rightarrow> rat txn list" where
  "dropna [] = []"
| "dropna (r # rs) =
     (case CustomerID r of
        None \<Rightarrow> dropna rs
      | Some c \<Rightarrow>
          \<lparr>CustomerID = c, InvoiceNo = InvoiceNo r, Quantity = Quantity r,
           UnitPrice = UnitPrice r, InvoiceDate = InvoiceDate r, Country = Country r\<rparr>
          # dropna rs)"

definition with_total :: "rat txn \<Rightarrow> sale" where
  "with_total r =
     \<lparr>CustomerID = astype_int (CustomerID r), InvoiceNo = InvoiceNo r, Quantity = Quantity r,
      UnitPrice = UnitPrice r, InvoiceDate = InvoiceDate r, Country = Country r,
      TotalPrice = Quantity r * UnitPrice r\<rparr>"

definition preprocess :: "dataframe \<Rightarrow> sale list" where
  "preprocess df = map with_total (dropna (rows df))"

section \<open>RFM aggregation (lines 56 to 62)\<close>

definition day :: int where
  "day = 86400000000000"

text \<open>
  The maximum of an empty column is NaT (\<open>None\<close>); then the table has no group and the
  reference date is never read.
\<close>

definition rfm_ref_date :: "sale list \<Rightarrow> int option" where
  "rfm_ref_date df =
     (if df = [] then None else Some (Max (set (map InvoiceDate df)) + day))"

text \<open>
  \<^verbatim>\<open>groupby('CustomerID')\<close> sorts the distinct keys; a group keeps its rows in table
  order. \<^verbatim>\<open>Timedelta.days\<close> is the floor of the difference in days, \<^verbatim>\<open>nunique\<close> counts
  the distinct values and \<^verbatim>\<open>sum\<close> adds the column.
\<close>

definition group_keys :: "sale list \<Rightarrow> int list" where
  "group_keys df = sorted_list_of_set (set (map CustomerID df))"

definition group_of :: "sale list \<Rightarrow> int \<Rightarrow> sale list" where
  "group_of df k = filter (\<lambda>r. CustomerID r = k) df"

definition agg :: "int \<Rightarrow> int \<Rightarrow> sale list \<Rightarrow> rfm_row" where
  "agg ref k g =
     \<lparr>CustomerID = k,
      Recency = (ref - Max (set (map InvoiceDate g))) div day,
      Frequency = card (set (map InvoiceNo g)),
      Monetary = sum_list (map TotalPrice g)\<rparr>"

definition rfm_table :: "sale list \<Rightarrow> rfm_row list" where
  "rfm_table df =
     (case rfm_ref_date df of
        None \<Rightarrow> []
      | Some ref \<Rightarrow> map (\<lambda>k. agg ref k (group_of df k)) (group_keys df))"

section \<open>Quintile scoring (lines 65 to 68)\<close>

text \<open>
  \<^verbatim>\<open>pd.qcut(x, q, labels)\<close> takes the quantiles of \<^verbatim>\<open>x\<close> at
  \<^verbatim>\<open>np.linspace(0, 1, q + 1)\<close> as bin edges, refuses edges that are not unique, and
  gives the value \<^verbatim>\<open>v\<close> the label of the bin \<^verbatim>\<open>searchsorted(bins, v, side='left')\<close>,
  where a value equal to the lowest edge goes to the first bin. A value outside all bins
  would be NaN, on which \<^verbatim>\<open>astype(int)\<close> raises.
\<close>

definition linspace :: "nat \<Rightarrow> rat list" where
  "linspace q = map (\<lambda>k. of_nat k / of_nat q) [0..<q + 1]"

text \<open>
  \<^verbatim>\<open>Series.quantile\<close> with linear interpolation: the virtual index \<^verbatim>\<open>p * (n - 1)\<close>
  into the sorted values, interpolated between its two neighbours.
\<close>

definition quantile :: "rat list \<Rightarrow> rat \<Rightarrow> rat" where
  "quantile x p =
     (let s = sort x; n = length s; h = p * of_nat (n - 1);
          lo = nat \<lfloor>h\<rfloor>; hi = min (lo + 1) (n - 1); g = h - of_nat lo
      in s ! lo + (s ! hi - s ! lo) * g)"

text \<open>The six bin edges of a split into five quantile bins.\<close>

definition edges :: "rat list \<Rightarrow> rat list" where
  "edges x = map (quantile x) (linspace 5)"

text \<open>On sorted edges the leftmost insertion point of \<open>v\<close> is the number of edges below \<open>v\<close>.\<close>

definition searchsorted_left :: "rat list \<Rightarrow> rat \<Rightarrow> nat" where
  "searchsorted_left bins v = length (filter (\<lambda>b. b < v) bins)"

definition bin_id :: "rat list \<Rightarrow> rat \<Rightarrow> nat" where
  "bin_id bins v = (if v = bins ! 0 then 1 else searchsorted_left bins v)"

definition qcut :: "rat list \<Rightarrow> nat \<Rightarrow> int list \<Rightarrow> error + int list" where
  "qcut x q labels =
     (if x = [] then Inl BinEdgesNotUnique
      else
        let bins = map (quantile x) (linspace q) in
        if \<not> distinct bins \<and> length bins \<noteq> 2 then Inl BinEdgesNotUnique
        else if length labels \<noteq> length bins - 1 then Inl LabelsLengthMismatch
        else
          let ids = map (bin_id bins) x in
          if 0 \<in> set ids \<or> length bins \<in> set ids then Inl CannotConvertNaN
          else Inr (map (\<lambda>i. labels ! (i - 1)) ids))"

text \<open>
  \<^verbatim>\<open>rank(method='first')\<close>: a stable argsort of the values; the row at position \<open>j\<close>
  of that order gets rank \<open>j + 1\<close>.
\<close>

definition argsort :: "'a::linorder list \<Rightarrow> nat list" where
  "argsort xs = sort_key (\<lambda>i. xs ! i) [0..<length xs]"

definition position :: "'a \<Rightarrow> 'a list \<Rightarrow> nat" where
  "position x xs = length (takeWhile (\<lambda>y. y \<noteq> x) xs)"

definition rank_first :: "'a::linorder list \<Rightarrow> nat list" where
  "rank_first xs = map (\<lambda>i. Suc (position i (argsort xs))) [0..<length xs]"

text \<open>\<^verbatim>\<open>astype(str)\<close> of an integer: its decimal digits, with a minus sign when negative.\<close>

definition digit_char :: "nat \<Rightarrow> char" where
  "digit_char d = ''0123456789'' ! d"

fun str_nat :: "nat \<Rightarrow> string" where
  "str_nat n = (if n < 10 then [digit_char n] else str_nat (n div 10) @ [digit_char (n mod 10)])"

declare str_nat.simps [simp del]

definition str_int :: "int \<Rightarrow> string" where
  "str_int i = (if i < 0 then CHR ''-'' # str_nat (nat (- i)) else str_nat (nat i))"

definition add_scores :: "rfm_row \<Rightarrow> int \<Rightarrow> int \<Rightarrow> int \<Rightarrow> scored_row" where
  "add_scores row r f m =
     rfm_row.extend row (scored_row.fields r f m (str_int r @ str_int f @ str_int m))"

definition R_Scores :: "rfm_row list \<Rightarrow> error + int list" where
  "R_Scores rfm = qcut (map (\<lambda>row. of_int (Recency row)) rfm) 5 [5, 4, 3, 2, 1]"

definition F_Scores :: "rfm_row list \<Rightarrow> error + int list" where
  "F_Scores rfm = qcut (map of_nat (rank_first (map Frequency rfm))) 5 [1, 2, 3, 4, 5]"

definition M_Scores :: "rfm_row list \<Rightarrow> error + int list" where
  "M_Scores rfm = qcut (map Monetary rfm) 5 [1, 2, 3, 4, 5]"

definition score_rfm :: "rfm_row list \<Rightarrow> error + scored_row list" where
  "score_rfm rfm =
     (case R_Scores rfm of
        Inl e \<Rightarrow> Inl e
      | Inr rs \<Rightarrow>
     (case F_Scores rfm of
        Inl e \<Rightarrow> Inl e
      | Inr fs \<Rightarrow>
     (case M_Scores rfm of
        Inl e \<Rightarrow> Inl e
      | Inr ms \<Rightarrow>
          Inr (map (\<lambda>i. add_scores (rfm ! i) (rs ! i) (fs ! i) (ms ! i)) [0..<length rfm]))))"

section \<open>Segments and suggested actions (lines 72 to 100)\<close>

definition segment_customer :: "('a scored_row_scheme) \<Rightarrow> string" where
  "segment_customer row =
     (let r = R_Score row; f = F_Score row; m = M_Score row in
      if r \<ge> 4 \<and> f \<ge> 4 \<and> m \<ge> 4 then ''Champions''
      else if r \<ge> 3 \<and> f \<ge> 3 \<and> m \<ge> 3 then ''Loyal Customers''
      else if r \<ge> 4 \<and> f \<le> 2 then ''Potential Loyalist''
      else if r \<ge> 3 \<and> f \<le> 2 then ''Recent Customers''
      else if r \<le> 2 \<and> f \<ge> 4 then ''At Risk''
      else if r \<le> 2 \<and> f \<le> 2 then ''Lost''
      else ''Others'')"

definition action_table :: "(string \<times> string) list" where
  "action_table =
     [(''Champions'', ''Offer VIP loyalty reward''),
      (''Loyal Customers'', ''Upsell premium products''),
      (''Potential Loyalist'', ''Send exclusive preview''),
      (''Recent Customers'', ''Welcome email & offer''),
      (''At Risk'', ''Send win-back campaign''),
      (''Lost'', ''Big discount or let go''),
      (''Others'', ''General promotions'')]"

text \<open>\<^verbatim>\<open>Series.map\<close> with a dict gives NaN (\<open>None\<close>) for a key that the dict lacks.\<close>

definition suggested_action :: "string \<Rightarrow> string option" where
  "suggested_action s = map_of action_table s"

definition add_segment :: "scored_row \<Rightarrow> segment_row" where
  "add_segment row =
     scored_row.extend row
       (segment_row.fields (segment_customer row) (suggested_action (segment_customer row)))"

section \<open>The optional Country merge (lines 103 to 104) and the whole run\<close>

text \<open>\<^verbatim>\<open>drop_duplicates()\<close> keeps the first of equal rows, in row order.\<close>

definition drop_duplicates :: "'a list \<Rightarrow> 'a list" where
  "drop_duplicates xs = rev (remdups (rev xs))"

text \<open>
  A left merge on \<^verbatim>\<open>CustomerID\<close>: every left row is paired with each right row of the
  same key, in order; a left row without a partner is kept with a missing value.
\<close>

definition with_country :: "string option \<Rightarrow> segment_row \<Rightarrow> report_row" where
  "with_country c row = segment_row.extend row (report_row.fields c)"

definition merge_country :: "segment_row list \<Rightarrow> (int \<times> string) list \<Rightarrow> report_row list" where
  "merge_country rfm right =
     concat (map (\<lambda>row.
       (case filter (\<lambda>p. fst p = CustomerID row) right of
          [] \<Rightarrow> [with_country None row]
        | ms \<Rightarrow> map (\<lambda>p. with_country (Some (snd p)) row) ms)) rfm)"

text \<open>
  The script from validation to the final table \<^verbatim>\<open>rfm\<close>. Without a \<^verbatim>\<open>Country\<close>
  column the table has no such column: its rows carry \<open>None\<close>.
\<close>

definition run :: "dataframe \<Rightarrow> error + report_row list" where
  "run input =
     (case validate input of
        Inl e \<Rightarrow> Inl e
      | Inr raw \<Rightarrow>
          let df = preprocess raw in
          (case score_rfm (rfm_table df) of
             Inl e \<Rightarrow> Inl e
           | Inr scored \<Rightarrow>
               let rfm = map add_segment scored in
               Inr (if ''Country'' \<in> set (columns raw)
                    then merge_country rfm
                           (drop_duplicates (map (\<lambda>r. (CustomerID r, Country r)) df))
                    else map (with_country None) rfm)))"

text \<open>
  The decision list of the specification: guards over the score triple with their
  labels, tried in order, and a default.
\<close>

fun first_match :: "(('a \<Rightarrow> bool) \<times> 'b) list \<Rightarrow> 'b \<Rightarrow> 'a \<Rightarrow> 'b" where
  "first_match [] d x = d"
| "first_match ((g, l) # rules) d x = (if g x then l else first_match rules d x)"

definition spec_segment_rules :: "((int \<times> int \<times> int \<Rightarrow> bool) \<times> string) list" where
  "spec_segment_rules =
     [(\<lambda>(r, f, m). r \<ge> 4 \<and> f \<ge> 4 \<and> m \<ge> 4, ''Champions''),
      (\<lambda>(r, f, m). r \<ge> 3 \<and> f \<ge> 3 \<and> m \<ge> 3, ''Loyal Customers''),
      (\<lambda>(r, f, m). r \<ge> 4 \<and> f \<le> 2, ''Potential Loyalist''),
      (\<lambda>(r, f, m). r \<ge> 3 \<and> f \<le> 2, ''Recent Customers''),
      (\<lambda>(r, f, m). r \<le> 2 \<and> f \<ge> 4, ''At Risk''),
      (\<lambda>(r, f, m). r \<le> 2 \<and> f \<le> 2, ''Lost'')]"

definition segment_names :: "string list" where
  "segment_names =
     [''Champions'', ''Loyal Customers'', ''Potential Loyalist'', ''Recent Customers'',
      ''At Risk'', ''Lost'', ''Others'']"

definition action_names :: "string list" where
  "action_names =
     [''Offer VIP loyalty reward'', ''Upsell premium products'', ''Send exclusive preview'',
      ''Welcome email & offer'', ''Send win-back campaign'', ''Big discount or let go'',
      ''General promotions'']"

section \<open>Example tables\<close>

definition mk_sale :: "int \<Rightarrow> string \<Rightarrow> int \<Rightarrow> rat \<Rightarrow> rat \<Rightarrow> string \<Rightarrow> sale" where
  "mk_sale c no d q p co =
     \<lparr>CustomerID = c, InvoiceNo = no, Quantity = q, UnitPrice = p, InvoiceDate = d,
      Country = co, TotalPrice = q * p\<rparr>"

text \<open>Two customers; customer 2 has a return on invoice A1 and a second invoice.\<close>

definition example_sales :: "sale list" where
  "example_sales =
     [mk_sale 2 ''A1'' (3 * day) 2 5 ''UK'',
      mk_sale 1 ''A2'' (5 * day + 7) 1 (3 / 2) ''UK'',
      mk_sale 2 ''A1'' (3 * day) (- 1) 5 ''UK'',
      mk_sale 2 ''A3'' (10 * day) 4 (1 / 4) ''UK'']"

text \<open>Three customers whose latest invoices are 1, 30 and 90 days before the reference date.\<close>

definition three_sales :: "sale list" where
  "three_sales =
     [mk_sale 1 ''A1'' (100 * day) 1 10 ''UK'',
      mk_sale 2 ''B1'' (71 * day) 1 20 ''UK'',
      mk_sale 3 ''C1'' (11 * day) 1 30 ''UK'']"

definition three_scored :: "scored_row list" where
  "three_scored =
     [\<lparr>CustomerID = 1, Recency = 1, Frequency = 1, Monetary = 10,
       R_Score = 5, F_Score = 1, M_Score = 1, RFM_Score = ''511''\<rparr>,
      \<lparr>CustomerID = 2, Recency = 30, Frequency = 1, Monetary = 20,
       R_Score = 3, F_Score = 3, M_Score = 3, RFM_Score = ''333''\<rparr>,
      \<lparr>CustomerID = 3, Recency = 90, Frequency = 1, Monetary = 30,
       R_Score = 1, F_Score = 5, M_Score = 5, RFM_Score = ''155''\<rparr>]"












text \<open>
  An uploaded table with a Country column: five customers and a row without CustomerID;
  customer 1 has one invoice from the United Kingdom and one from France.
\<close>

definition mk_txn :: "rat option \<Rightarrow> string \<Rightarrow> int \<Rightarrow> rat \<Rightarrow> rat \<Rightarrow> string \<Rightarrow> rat option txn" where
  "mk_txn c no d q p co =
     \<lparr>CustomerID = c, InvoiceNo = no, Quantity = q, UnitPrice = p, InvoiceDate = d,
      Country = co\<rparr>"

definition two_country_input :: dataframe where
  "two_country_input =
     \<lparr>columns = [''InvoiceNo'', ''InvoiceDate'', ''CustomerID'', ''Quantity'', ''UnitPrice'',
                 ''Country''],
      rows =
        [mk_txn (Some 1) ''A1'' (10 * day) 1 10 ''United Kingdom'',
         mk_txn (Some 1) ''A2'' (11 * day) 1 5 ''France'',
         mk_txn (Some 2) ''B1'' (9 * day) 1 20 ''United Kingdom'',
         mk_txn (Some 3) ''C1'' (8 * day) 1 30 ''United Kingdom'',
         mk_txn None ''N1'' (8 * day) 1 35 ''United Kingdom'',
         mk_txn (Some 4) ''D1'' (7 * day) 1 40 ''United Kingdom'',
         mk_txn (Some 5) ''E1'' (6 * day) 1 50 ''United Kingdom'']\<rparr>"

section \<open>The segment classifier\<close>

text \<open>
  Claim C1. The segment of a row is a function of its three scores alone: it is the label
  of the first rule of the ordered decision list whose guard holds, \<open>Others\<close> when none
  does, and it is always one of the seven segment names. This holds for every score
  triple, so in particular for the triples with components in 1..5.
\<close>

theorem segment_customer_decision_list:
  "segment_customer row =
     first_match spec_segment_rules ''Others'' (R_Score row, F_Score row, M_Score row)
   \<and> segment_customer row \<in> set segment_names"
  by (simp add: segment_customer_def spec_segment_rules_def segment_names_def Let_def)

section \<open>Suggested actions\<close>

lemma Segment_add_segment: "Segment (add_segment row) = segment_customer row"
  by (simp add: add_segment_def scored_row.defs segment_row.defs)

lemma Suggested_Action_add_segment:
  "Suggested_Action (add_segment row) = suggested_action (segment_customer row)"
  by (simp add: add_segment_def scored_row.defs segment_row.defs)

lemma segment_customer_name: "segment_customer row \<in> set segment_names"
  by (simp add: segment_customer_def segment_names_def Let_def)

text \<open>
  Claim C6. The lookup table sends the seven segments, in the documented order, to the
  seven documented action strings and has no other key; the action column of a row is
  the table's entry for the row's segment, so it is always one of the seven strings
  (never missing).
\<close>

theorem suggested_action_total:
  "map suggested_action segment_names = map Some action_names
   \<and> dom suggested_action = set segment_names
   \<and> Segment (add_segment row) = segment_customer row
   \<and> Suggested_Action (add_segment row) = suggested_action (Segment (add_segment row))
   \<and> Suggested_Action (add_segment row) \<in> set (map Some action_names)"
proof -
  have a: "map suggested_action segment_names = map Some action_names"
    by (simp add: suggested_action_def action_table_def segment_names_def action_names_def)
  have b: "dom suggested_action = set segment_names"
    unfolding suggested_action_def dom_map_of_conv_image_fst
    by (simp add: action_table_def segment_names_def)
  have "suggested_action (segment_customer row) \<in> set (map suggested_action segment_names)"
    using segment_customer_name [of row] by simp
  then have e: "suggested_action (segment_customer row) \<in> set (map Some action_names)"
    by (simp only: a)
  from a b e show ?thesis
    by (simp add: Segment_add_segment Suggested_Action_add_segment)
qed

section \<open>Validation\<close>

text \<open>
  Claim C9. When a required column is absent, validation fails with the error that
  carries exactly the required columns that the table lacks (a non-empty set), and the
  whole run ends with that error: nothing after the check is computed. When all required
  columns are present, validation returns the table unchanged.
\<close>

theorem validate_required_columns:
  "(\<not> required_cols \<subseteq> set (columns df) \<longrightarrow>
      validate df = Inl (MissingColumns (required_cols - set (columns df)))
      \<and> run df = Inl (MissingColumns (required_cols - set (columns df)))
      \<and> required_cols - set (columns df) \<noteq> {})
   \<and> (required_cols \<subseteq> set (columns df) \<longrightarrow> validate df = Inr df)"
  by (auto simp: validate_def run_def)

theorem validate_required_columns_witness:
  "validate \<lparr>columns = [''InvoiceNo'', ''Quantity'', ''Country''], rows = []\<rparr>
     = Inl (MissingColumns {''UnitPrice'', ''InvoiceDate'', ''CustomerID''})
   \<and> run \<lparr>columns = [''InvoiceNo'', ''Quantity'', ''Country''], rows = []\<rparr>
     = Inl (MissingColumns {''UnitPrice'', ''InvoiceDate'', ''CustomerID''})
   \<and> validate \<lparr>columns = [''CustomerID'', ''InvoiceNo'', ''InvoiceDate'', ''Quantity'',
                   ''UnitPrice''], rows = []\<rparr>
     = Inr \<lparr>columns = [''CustomerID'', ''InvoiceNo'', ''InvoiceDate'', ''Quantity'',
                   ''UnitPrice''], rows = []\<rparr>"
  using
    validate_required_columns
      [of "\<lparr>columns = [''InvoiceNo'', ''Quantity'', ''Country''], rows = []\<rparr>"]
    validate_required_columns
      [of "\<lparr>columns = [''CustomerID'', ''InvoiceNo'', ''InvoiceDate'', ''Quantity'',
                       ''UnitPrice''], rows = []\<rparr>"]
  by (simp add: required_cols_def insert_Diff_if)

section \<open>The RFM aggregation\<close>

lemma set_group_keys: "set (group_keys df) = CustomerID ` set df"
  by (simp add: group_keys_def)

lemma distinct_group_keys: "distinct (group_keys df)"
  by (simp add: group_keys_def)

lemma CustomerID_agg: "CustomerID (agg ref k g) = k"
  by (simp add: agg_def)

lemma CustomerID_rfm_table: "map CustomerID (rfm_table df) = group_keys df"
  by (cases "df = []")
    (simp_all add: rfm_table_def rfm_ref_date_def group_keys_def CustomerID_agg comp_def)

text \<open>Before the merge, the aggregate table has one row for each customer of the cleaned table.\<close>

lemma rfm_table_one_row_per_customer:
  "distinct (map CustomerID (rfm_table df))
   \<and> set (map CustomerID (rfm_table df)) = CustomerID ` set df"
  by (simp only: CustomerID_rfm_table distinct_group_keys set_group_keys)

lemma rfm_table_row:
  assumes "row \<in> set (rfm_table df)"
  obtains k where "k \<in> CustomerID ` set df" and "df \<noteq> []"
    and "row = agg (Max (set (map InvoiceDate df)) + day) k (group_of df k)"
proof -
  from assms have ne: "df \<noteq> []"
    by (auto simp: rfm_table_def rfm_ref_date_def)
  with assms obtain k where "k \<in> set (group_keys df)"
    and "row = agg (Max (set (map InvoiceDate df)) + day) k (group_of df k)"
    by (auto simp: rfm_table_def rfm_ref_date_def)
  with ne that show thesis by (simp add: set_group_keys)
qed

lemma group_max_le:
  assumes "k \<in> CustomerID ` set df"
  shows "Max (set (map InvoiceDate (group_of df k))) \<le> Max (set (map InvoiceDate df))"
proof (rule Max_mono)
  show "set (map InvoiceDate (group_of df k)) \<subseteq> set (map InvoiceDate df)"
    by (auto simp: group_of_def)
  from assms show "set (map InvoiceDate (group_of df k)) \<noteq> {}"
    by (auto simp: group_of_def filter_empty_conv)
  show "finite (set (map InvoiceDate df))" by simp
qed

text \<open>The reference date is a day after the latest invoice, so every Recency is at least 1.\<close>

lemma Recency_ge_1:
  assumes "row \<in> set (rfm_table df)"
  shows "1 \<le> Recency row"
proof -
  from assms obtain k where k: "k \<in> CustomerID ` set df"
    and row: "row = agg (Max (set (map InvoiceDate df)) + day) k (group_of df k)"
    by (rule rfm_table_row)
  let ?d = "Max (set (map InvoiceDate df)) + day - Max (set (map InvoiceDate (group_of df k)))"
  from group_max_le [OF k] have "day \<le> ?d" by simp
  then have "day div day \<le> ?d div day"
    by (rule zdiv_mono1) (simp add: day_def)
  then have "1 \<le> ?d div day" by (simp add: day_def)
  with row show ?thesis by (simp add: agg_def)
qed

text \<open>
  Claim C4. With the reference date one day after the maximum InvoiceDate of the whole
  cleaned table, the Recency of every row of the aggregate table (the whole days between
  the reference date and the customer's latest invoice) is non-negative.
\<close>

theorem Recency_nonnegative:
  "row \<in> set (rfm_table df) \<Longrightarrow> 0 \<le> Recency row"
  using Recency_ge_1 [of row df] by simp

theorem Recency_nonnegative_witness:
  "\<lparr>CustomerID = 2, Recency = 1, Frequency = 2, Monetary = 6\<rparr> \<in> set (rfm_table example_sales)
   \<and> 0 \<le> Recency \<lparr>CustomerID = 2, Recency = 1, Frequency = 2, Monetary = 6\<rparr>"
proof -
  have m: "\<lparr>CustomerID = 2, Recency = 1, Frequency = 2, Monetary = 6\<rparr>
             \<in> set (rfm_table example_sales)"
    by code_simp
  from m Recency_nonnegative [OF m] show ?thesis by simp
qed




section \<open>Quantile bins and scores\<close>

lemma linspace_5: "linspace 5 = [0, 1 / 5, 2 / 5, 3 / 5, 4 / 5, 1]"
  by (simp add: linspace_def upt_rec)

lemma edges_eq:
  "edges x = [quantile x 0, quantile x (1 / 5), quantile x (2 / 5), quantile x (3 / 5),
              quantile x (4 / 5), quantile x 1]"
  by (simp add: edges_def linspace_5)

lemma length_edges: "length (edges x) = 6"
  by (simp add: edges_eq)

lemma quantile_0: "quantile x 0 = sort x ! 0"
  by (simp add: quantile_def)

lemma quantile_1: "quantile x 1 = sort x ! (length x - 1)"
  by (simp add: quantile_def)

lemma sort_nth_0_le:
  assumes "v \<in> set x"
  shows "sort x ! 0 \<le> v"
proof -
  from assms have "v \<in> set (sort x)" by simp
  then obtain i where i: "i < length (sort x)" and v: "sort x ! i = v"
    by (meson in_set_conv_nth)
  have "sort x ! 0 \<le> sort x ! i"
    by (rule sorted_nth_mono) (use i in simp_all)
  with v show ?thesis by simp
qed

lemma le_sort_nth_last:
  assumes "v \<in> set x"
  shows "v \<le> sort x ! (length x - 1)"
proof -
  from assms have "v \<in> set (sort x)" by simp
  then obtain i where i: "i < length (sort x)" and v: "sort x ! i = v"
    by (meson in_set_conv_nth)
  have "sort x ! i \<le> sort x ! (length x - 1)"
    by (rule sorted_nth_mono) (use i in simp_all)
  with v show ?thesis by simp
qed

lemma quantile_between:
  assumes x: "x \<noteq> []" and p: "0 \<le> p" "p \<le> 1"
  defines "lo \<equiv> nat \<lfloor>p * of_nat (length x - 1)\<rfloor>"
  shows "lo \<le> length x - 1"
    and "sort x ! lo \<le> quantile x p"
    and "quantile x p \<le> sort x ! min (lo + 1) (length x - 1)"
proof -
  let ?s = "sort x" and ?m = "length x - 1"
  let ?h = "p * rat_of_nat ?m"
  let ?hi = "min (lo + 1) ?m"
  let ?g = "?h - of_nat lo"
  from p have h0: "0 \<le> ?h" by simp
  from p have hm: "?h \<le> of_nat ?m" by (simp add: mult_left_le_one_le)
  from h0 have fl: "rat_of_nat lo = of_int \<lfloor>?h\<rfloor>" by (simp add: lo_def)
  from h0 hm show lom: "lo \<le> ?m"
    unfolding lo_def by (metis floor_of_nat floor_mono nat_int nat_mono)
  from fl have g0: "0 \<le> ?g" by simp
  from fl have g1: "?g \<le> 1" by linarith
  from x obtain k where k: "length x = Suc k" by (cases x) simp_all
  with lom have "lo \<le> ?hi" and "?hi < length ?s" by (simp_all add: k)
  then have d: "?s ! lo \<le> ?s ! ?hi" by (intro sorted_nth_mono) simp_all
  have q: "quantile x p = ?s ! lo + (?s ! ?hi - ?s ! lo) * ?g"
    by (simp add: quantile_def Let_def lo_def)
  from d g0 show "?s ! lo \<le> quantile x p" by (simp add: q)
  from d g1 have "(?s ! ?hi - ?s ! lo) * ?g \<le> (?s ! ?hi - ?s ! lo) * 1"
    by (intro mult_left_mono) simp_all
  then show "quantile x p \<le> ?s ! ?hi" by (simp add: q)
qed

lemma quantile_mono:
  assumes x: "x \<noteq> []" and p: "0 \<le> p" "p \<le> p'" "p' \<le> 1"
  shows "quantile x p \<le> quantile x p'"
proof -
  let ?s = "sort x" and ?m = "length x - 1"
  define lo where "lo = nat \<lfloor>p * rat_of_nat ?m\<rfloor>"
  define lo' where "lo' = nat \<lfloor>p' * rat_of_nat ?m\<rfloor>"
  from p have p1: "p \<le> 1" and p0: "0 \<le> p'" by simp_all
  note a = quantile_between [OF x p(1) p1, folded lo_def]
  note b = quantile_between [OF x p0 p(3), folded lo'_def]
  from p have "p * rat_of_nat ?m \<le> p' * rat_of_nat ?m" by (simp add: mult_right_mono)
  then have le: "lo \<le> lo'" unfolding lo_def lo'_def by (intro nat_mono floor_mono)
  show ?thesis
  proof (cases "lo = lo'")
    case True
    let ?hi = "min (lo + 1) ?m"
    from x obtain k where k: "length x = Suc k" by (cases x) simp_all
    with a(1) have "lo \<le> ?hi" and "?hi < length ?s" by (simp_all add: k)
    then have d: "0 \<le> ?s ! ?hi - ?s ! lo" by (simp add: sorted_nth_mono)
    have q: "quantile x p = ?s ! lo + (?s ! ?hi - ?s ! lo) * (p * of_nat ?m - of_nat lo)"
      by (simp add: quantile_def Let_def lo_def)
    have q': "quantile x p' = ?s ! lo + (?s ! ?hi - ?s ! lo) * (p' * of_nat ?m - of_nat lo)"
      using True by (simp add: quantile_def Let_def lo'_def)
    from p have "p * rat_of_nat ?m - of_nat lo \<le> p' * of_nat ?m - of_nat lo"
      by (simp add: mult_right_mono)
    with d have "(?s ! ?hi - ?s ! lo) * (p * of_nat ?m - of_nat lo)
        \<le> (?s ! ?hi - ?s ! lo) * (p' * of_nat ?m - of_nat lo)"
      by (rule mult_left_mono [rotated])
    then show ?thesis by (simp add: q q')
  next
    case False
    with le have "lo + 1 \<le> lo'" by simp
    with b(1) have "min (lo + 1) ?m \<le> lo'" by simp
    moreover from x obtain k where k: "length x = Suc k" by (cases x) simp_all
    with b(1) have "lo' < length ?s" by (simp add: k)
    ultimately have "?s ! min (lo + 1) ?m \<le> ?s ! lo'" by (intro sorted_nth_mono) simp_all
    with a(3) b(2) show ?thesis by linarith
  qed
qed

text \<open>The bin edges are in ascending order, as the binary search of the source needs.\<close>

lemma sorted_edges:
  assumes "x \<noteq> []"
  shows "sorted (edges x)"
proof -
  have "quantile x (a / 5) \<le> quantile x (b / 5)" if "0 \<le> a" "a \<le> b" "b \<le> 5" for a b :: rat
    using assms that by (intro quantile_mono) simp_all
  from this [of 0 1] this [of 1 2] this [of 2 3] this [of 3 4] this [of 4 5]
  have "quantile x 0 \<le> quantile x (1 / 5)" "quantile x (1 / 5) \<le> quantile x (2 / 5)"
    "quantile x (2 / 5) \<le> quantile x (3 / 5)" "quantile x (3 / 5) \<le> quantile x (4 / 5)"
    "quantile x (4 / 5) \<le> quantile x 1"
    by simp_all
  then show ?thesis by (simp add: edges_eq)
qed

lemma searchsorted_left_mono:
  "v \<le> w \<Longrightarrow> searchsorted_left bins v \<le> searchsorted_left bins w"
  unfolding searchsorted_left_def
  by (induction bins) auto

lemma bin_id_range:
  assumes "v \<in> set x"
  shows "1 \<le> bin_id (edges x) v \<and> bin_id (edges x) v \<le> 5"
proof (cases "v = quantile x 0")
  case True
  then show ?thesis by (simp add: bin_id_def edges_eq)
next
  case False
  with sort_nth_0_le [OF assms] have lo: "quantile x 0 < v"
    by (simp add: quantile_0)
  from le_sort_nth_last [OF assms] have hi: "\<not> quantile x 1 < v"
    by (simp add: quantile_1)
  from False lo hi show ?thesis
    by (simp add: bin_id_def edges_eq searchsorted_left_def)
qed

lemma bin_id_mono:
  assumes "v \<in> set x" and "w \<in> set x" and "v \<le> w"
  shows "bin_id (edges x) v \<le> bin_id (edges x) w"
proof (cases "w = quantile x 0")
  case True
  with sort_nth_0_le [OF assms(1)] assms(3) have "v = quantile x 0"
    by (simp add: quantile_0)
  with True show ?thesis by simp
next
  case w: False
  show ?thesis
  proof (cases "v = quantile x 0")
    case True
    with bin_id_range [OF assms(2)] show ?thesis
      by (simp add: bin_id_def edges_eq)
  next
    case False
    with w searchsorted_left_mono [OF assms(3), of "edges x"] show ?thesis
      by (simp add: bin_id_def edges_eq)
  qed
qed

lemma qcut_5_Inr:
  assumes "qcut x 5 labels = Inr ss"
  shows "x \<noteq> []" and "distinct (edges x)" and "length labels = 5"
    and "ss = map (\<lambda>v. labels ! (bin_id (edges x) v - 1)) x"
  using assms
  by (auto simp: qcut_def edges_def [symmetric] length_edges Let_def comp_def split: if_splits)

lemma qcut_5_accepts:
  assumes "x \<noteq> []" and "distinct (edges x)" and "length labels = 5"
  shows "qcut x 5 labels = Inr (map (\<lambda>v. labels ! (bin_id (edges x) v - 1)) x)"
proof -
  have "bin_id (edges x) v \<noteq> 0 \<and> bin_id (edges x) v \<noteq> 6" if "v \<in> set x" for v
    using bin_id_range [OF that] by simp
  then have "0 \<notin> bin_id (edges x) ` set x" and "6 \<notin> bin_id (edges x) ` set x"
    by force+
  with assms show ?thesis
    by (simp add: qcut_def edges_def [symmetric] length_edges Let_def)
qed

lemma add_scores_simps:
  "CustomerID (add_scores row r f m) = CustomerID row"
  "Recency (add_scores row r f m) = Recency row"
  "Frequency (add_scores row r f m) = Frequency row"
  "Monetary (add_scores row r f m) = Monetary row"
  "R_Score (add_scores row r f m) = r"
  "F_Score (add_scores row r f m) = f"
  "M_Score (add_scores row r f m) = m"
  "RFM_Score (add_scores row r f m) = str_int r @ str_int f @ str_int m"
  by (simp_all add: add_scores_def rfm_row.defs scored_row.defs)

lemma length_qcut_5:
  assumes "qcut x 5 labels = Inr ss"
  shows "length ss = length x"
  using qcut_5_Inr(4) [OF assms] by simp

lemma score_rfm_Inr:
  assumes "score_rfm rfm = Inr out"
  obtains rs fs ms where "R_Scores rfm = Inr rs" and "F_Scores rfm = Inr fs"
    and "M_Scores rfm = Inr ms"
    and "length rs = length rfm" and "length fs = length rfm" and "length ms = length rfm"
    and "out = map (\<lambda>i. add_scores (rfm ! i) (rs ! i) (fs ! i) (ms ! i)) [0..<length rfm]"
proof -
  from assms obtain rs fs ms where r: "R_Scores rfm = Inr rs" and f: "F_Scores rfm = Inr fs"
    and m: "M_Scores rfm = Inr ms"
    and out: "out = map (\<lambda>i. add_scores (rfm ! i) (rs ! i) (fs ! i) (ms ! i)) [0..<length rfm]"
    by (auto simp: score_rfm_def split: sum.splits)
  from r have "length rs = length rfm"
    using length_qcut_5 [of _ _ rs] by (simp add: R_Scores_def)
  moreover from f have "length fs = length rfm"
    using length_qcut_5 [of _ _ fs] by (simp add: F_Scores_def rank_first_def)
  moreover from m have "length ms = length rfm"
    using length_qcut_5 [of _ _ ms] by (simp add: M_Scores_def)
  ultimately show thesis using out by (intro that [OF r f m])
qed

lemma score_rfm_row:
  assumes "score_rfm rfm = Inr out" and "row \<in> set out"
  obtains rs fs ms i where "R_Scores rfm = Inr rs" and "F_Scores rfm = Inr fs"
    and "M_Scores rfm = Inr ms"
    and "length rs = length rfm" and "length fs = length rfm" and "length ms = length rfm"
    and "i < length rfm"
    and "row = add_scores (rfm ! i) (rs ! i) (fs ! i) (ms ! i)"
proof -
  from assms(1) obtain rs fs ms where a: "R_Scores rfm = Inr rs" "F_Scores rfm = Inr fs"
    "M_Scores rfm = Inr ms"
    "length rs = length rfm" "length fs = length rfm" "length ms = length rfm"
    and out: "out = map (\<lambda>i. add_scores (rfm ! i) (rs ! i) (fs ! i) (ms ! i)) [0..<length rfm]"
    by (rule score_rfm_Inr)
  from assms(2) out obtain i where "i < length rfm"
    and "row = add_scores (rfm ! i) (rs ! i) (fs ! i) (ms ! i)"
    by auto
  with a show thesis by (rule that)
qed

text \<open>A label list read at a bin number between 1 and 5.\<close>

lemma descending_label:
  assumes "1 \<le> k" and "k \<le> 5"
  shows "[5, 4, 3, 2, 1 :: int] ! (k - 1) = 6 - int k"
proof -
  from assms have "k = 1 \<or> k = 2 \<or> k = 3 \<or> k = 4 \<or> k = 5" by arith
  then show ?thesis by auto
qed

lemma ascending_label:
  assumes "1 \<le> k" and "k \<le> 5"
  shows "[1, 2, 3, 4, 5 :: int] ! (k - 1) = int k"
proof -
  from assms have "k = 1 \<or> k = 2 \<or> k = 3 \<or> k = 4 \<or> k = 5" by arith
  then show ?thesis by auto
qed

lemma qcut_descending_nth:
  assumes "qcut x 5 [5, 4, 3, 2, 1] = Inr ss" and "i < length x"
  shows "ss ! i = 6 - int (bin_id (edges x) (x ! i))"
    and "1 \<le> bin_id (edges x) (x ! i)" and "bin_id (edges x) (x ! i) \<le> 5"
proof -
  from assms(2) have "x ! i \<in> set x" by simp
  from bin_id_range [OF this]
  show b: "1 \<le> bin_id (edges x) (x ! i)" "bin_id (edges x) (x ! i) \<le> 5" by simp_all
  from qcut_5_Inr(4) [OF assms(1)] assms(2)
  have "ss ! i = [5, 4, 3, 2, 1] ! (bin_id (edges x) (x ! i) - 1)" by simp
  with descending_label [OF b] show "ss ! i = 6 - int (bin_id (edges x) (x ! i))" by simp
qed

lemma qcut_ascending_nth:
  assumes "qcut x 5 [1, 2, 3, 4, 5] = Inr ss" and "i < length x"
  shows "ss ! i = int (bin_id (edges x) (x ! i))"
    and "1 \<le> bin_id (edges x) (x ! i)" and "bin_id (edges x) (x ! i) \<le> 5"
proof -
  from assms(2) have "x ! i \<in> set x" by simp
  from bin_id_range [OF this]
  show b: "1 \<le> bin_id (edges x) (x ! i)" "bin_id (edges x) (x ! i) \<le> 5" by simp_all
  from qcut_5_Inr(4) [OF assms(1)] assms(2)
  have "ss ! i = [1, 2, 3, 4, 5] ! (bin_id (edges x) (x ! i) - 1)" by simp
  with ascending_label [OF b] show "ss ! i = int (bin_id (edges x) (x ! i))" by simp
qed

lemma R_Scores_antimono:
  assumes "R_Scores rfm = Inr rs" and "i < length rfm" and "j < length rfm"
    and "Recency (rfm ! i) \<le> Recency (rfm ! j)"
  shows "rs ! j \<le> rs ! i"
proof -
  let ?x = "map (\<lambda>row. of_int (Recency row)) rfm :: rat list"
  from assms(1) have q: "qcut ?x 5 [5, 4, 3, 2, 1] = Inr rs" by (simp add: R_Scores_def)
  from assms(2,3) have i: "i < length ?x" and j: "j < length ?x" by simp_all
  from assms(2,3,4) have "?x ! i \<le> ?x ! j" by simp
  moreover from i have "?x ! i \<in> set ?x" by (rule nth_mem)
  moreover from j have "?x ! j \<in> set ?x" by (rule nth_mem)
  ultimately have "bin_id (edges ?x) (?x ! i) \<le> bin_id (edges ?x) (?x ! j)"
    by (intro bin_id_mono)
  with qcut_descending_nth(1) [OF q i] qcut_descending_nth(1) [OF q j]
  show ?thesis by simp
qed

lemma Recency_agg_mono:
  assumes "Max (set (map InvoiceDate gb)) \<le> Max (set (map InvoiceDate ga))"
  shows "Recency (agg ref ka ga) \<le> Recency (agg ref kb gb)"
proof -
  from assms have "ref - Max (set (map InvoiceDate ga)) \<le> ref - Max (set (map InvoiceDate gb))"
    by simp
  then have "(ref - Max (set (map InvoiceDate ga))) div day
      \<le> (ref - Max (set (map InvoiceDate gb))) div day"
    by (rule zdiv_mono1) (simp add: day_def)
  then show ?thesis by (simp add: agg_def)
qed

text \<open>
  Claim C8. In one scored population the R_Score falls as Recency grows: a customer whose
  Recency is smaller than (or equal to) another's has an R_Score at least as high. This
  holds for the R_Score column as soon as line 65 succeeds, and hence for the rows of the
  scored table. A customer whose latest invoice is later has the smaller or equal Recency,
  so three customers A, B, C with ever older latest invoices have
  R_Score A \<ge> R_Score B \<ge> R_Score C.
\<close>

theorem R_Score_antimonotone:
  "(R_Scores rfm = Inr rs \<and> i < length rfm \<and> j < length rfm
      \<and> Recency (rfm ! i) \<le> Recency (rfm ! j) \<longrightarrow> rs ! j \<le> rs ! i)
   \<and> (score_rfm rfm = Inr out \<and> a \<in> set out \<and> b \<in> set out \<and> Recency a \<le> Recency b
        \<longrightarrow> R_Score b \<le> R_Score a)
   \<and> (Max (set (map InvoiceDate gb)) \<le> Max (set (map InvoiceDate ga))
        \<longrightarrow> Recency (agg ref ka ga) \<le> Recency (agg ref kb gb))"
proof (intro conjI impI)
  assume "R_Scores rfm = Inr rs \<and> i < length rfm \<and> j < length rfm
      \<and> Recency (rfm ! i) \<le> Recency (rfm ! j)"
  then show "rs ! j \<le> rs ! i" by (blast intro: R_Scores_antimono)
next
  assume h: "score_rfm rfm = Inr out \<and> a \<in> set out \<and> b \<in> set out \<and> Recency a \<le> Recency b"
  then obtain rs fs ms i where r: "R_Scores rfm = Inr rs" and i: "i < length rfm"
    and a: "a = add_scores (rfm ! i) (rs ! i) (fs ! i) (ms ! i)"
    by (blast elim: score_rfm_row)
  from h obtain rs' fs' ms' j where r': "R_Scores rfm = Inr rs'" and j: "j < length rfm"
    and b: "b = add_scores (rfm ! j) (rs' ! j) (fs' ! j) (ms' ! j)"
    by (blast elim: score_rfm_row)
  from r r' have e: "rs' = rs" by simp
  from h a b have "Recency (rfm ! i) \<le> Recency (rfm ! j)" by (simp add: add_scores_simps)
  from R_Scores_antimono [OF r i j this] a b e show "R_Score b \<le> R_Score a"
    by (simp add: add_scores_simps)
next
  assume "Max (set (map InvoiceDate gb)) \<le> Max (set (map InvoiceDate ga))"
  then show "Recency (agg ref ka ga) \<le> Recency (agg ref kb gb)" by (rule Recency_agg_mono)
qed

lemma score_three_sales: "score_rfm (rfm_table three_sales) = Inr three_scored"
  by code_simp

theorem R_Score_antimonotone_witness:
  "R_Scores (rfm_table three_sales) = Inr [5, 3, 1]
   \<and> map Recency (rfm_table three_sales) = [1, 30, 90]
   \<and> score_rfm (rfm_table three_sales) = Inr three_scored
   \<and> map R_Score three_scored = [5, 3, 1]
   \<and> Recency (agg (101 * day) 1 (group_of three_sales 1)) = 1
   \<and> Recency (agg (101 * day) 2 (group_of three_sales 2)) = 30
   \<and> R_Score (three_scored ! 1) \<le> R_Score (three_scored ! 0)
   \<and> R_Score (three_scored ! 2) \<le> R_Score (three_scored ! 1)"
proof -
  have r: "R_Scores (rfm_table three_sales) = Inr [5, 3, 1]" by code_simp
  have c: "map Recency (rfm_table three_sales) = [1, 30, 90]" by code_simp
  have l: "length (rfm_table three_sales) = 3" by code_simp
  have n: "Recency (rfm_table three_sales ! 0) \<le> Recency (rfm_table three_sales ! 1)"
    by code_simp
  have m: "three_scored ! 0 \<in> set three_scored" "three_scored ! 1 \<in> set three_scored"
    "three_scored ! 2 \<in> set three_scored"
    by (simp_all add: three_scored_def)
  have v: "map R_Score three_scored = [5, 3, 1]" by (simp add: three_scored_def)
  have o: "Recency (three_scored ! 0) \<le> Recency (three_scored ! 1)"
    "Recency (three_scored ! 1) \<le> Recency (three_scored ! 2)"
    by (simp_all add: three_scored_def)
  have g: "Max (set (map InvoiceDate (group_of three_sales 2)))
      \<le> Max (set (map InvoiceDate (group_of three_sales 1)))"
    by code_simp
  have a: "Recency (agg (101 * day) 1 (group_of three_sales 1)) = 1"
    "Recency (agg (101 * day) 2 (group_of three_sales 2)) = 30"
    by code_simp+
  from
    R_Score_antimonotone [of "rfm_table three_sales" "[5, 3, 1]" 0 1 three_scored
      "three_scored ! 0" "three_scored ! 1" "group_of three_sales 2" "group_of three_sales 1"
      "101 * day" 1 2]
    R_Score_antimonotone [of "rfm_table three_sales" "[5, 3, 1]" 0 1 three_scored
      "three_scored ! 1" "three_scored ! 2" "group_of three_sales 2" "group_of three_sales 1"
      "101 * day" 1 2]
    r c l n m v o g a score_three_sales
  show ?thesis by simp
qed

lemma str_int_digit:
  assumes "1 \<le> r" and "r \<le> 5"
  shows "str_int r = [digit_char (nat r)]" and "digit_char (nat r) \<in> set ''12345''"
proof -
  from assms have "r = 1 \<or> r = 2 \<or> r = 3 \<or> r = 4 \<or> r = 5" by arith
  then show "str_int r = [digit_char (nat r)]" and "digit_char (nat r) \<in> set ''12345''"
    by (auto simp: str_int_def str_nat.simps digit_char_def)
qed

lemma score_rfm_range:
  assumes "score_rfm rfm = Inr out" and "row \<in> set out"
  shows "1 \<le> R_Score row \<and> R_Score row \<le> 5"
    and "1 \<le> F_Score row \<and> F_Score row \<le> 5"
    and "1 \<le> M_Score row \<and> M_Score row \<le> 5"
proof -
  from assms obtain rs fs ms i where r: "R_Scores rfm = Inr rs" and f: "F_Scores rfm = Inr fs"
    and m: "M_Scores rfm = Inr ms" and i: "i < length rfm"
    and row: "row = add_scores (rfm ! i) (rs ! i) (fs ! i) (ms ! i)"
    by (rule score_rfm_row)
  let ?xr = "map (\<lambda>row. of_int (Recency row)) rfm :: rat list"
  let ?xf = "map of_nat (rank_first (map Frequency rfm)) :: rat list"
  let ?xm = "map Monetary rfm"
  from i have ir: "i < length ?xr" and jf: "i < length ?xf" and im: "i < length ?xm"
    by (simp_all add: rank_first_def)
  from r have "qcut ?xr 5 [5, 4, 3, 2, 1] = Inr rs" by (simp add: R_Scores_def)
  from qcut_descending_nth [OF this ir] row
  show "1 \<le> R_Score row \<and> R_Score row \<le> 5" by (simp add: add_scores_simps)
  from f have "qcut ?xf 5 [1, 2, 3, 4, 5] = Inr fs" by (simp add: F_Scores_def)
  from qcut_ascending_nth [OF this jf] row
  show "1 \<le> F_Score row \<and> F_Score row \<le> 5" by (simp add: add_scores_simps)
  from m have "qcut ?xm 5 [1, 2, 3, 4, 5] = Inr ms" by (simp add: M_Scores_def)
  from qcut_ascending_nth [OF this im] row
  show "1 \<le> M_Score row \<and> M_Score row \<le> 5" by (simp add: add_scores_simps)
qed

text \<open>
  Claim C10. In every row of the scored table, RFM_Score is the three decimal digits of
  R_Score, F_Score and M_Score in that order: exactly three characters, each one of
  1 to 5, so never a zero and never a sign.
\<close>

theorem RFM_Score_three_digits:
  assumes "score_rfm rfm = Inr out" and "row \<in> set out"
  shows "RFM_Score row = str_int (R_Score row) @ str_int (F_Score row) @ str_int (M_Score row)
    \<and> RFM_Score row = [digit_char (nat (R_Score row)), digit_char (nat (F_Score row)),
                        digit_char (nat (M_Score row))]
    \<and> length (RFM_Score row) = 3
    \<and> set (RFM_Score row) \<subseteq> set ''12345''"
proof -
  from assms obtain rs fs ms i where
    row: "row = add_scores (rfm ! i) (rs ! i) (fs ! i) (ms ! i)"
    by (rule score_rfm_row)
  then have c: "RFM_Score row = str_int (R_Score row) @ str_int (F_Score row) @ str_int (M_Score row)"
    by (simp add: add_scores_simps)
  from score_rfm_range [OF assms]
  have r: "1 \<le> R_Score row" "R_Score row \<le> 5" and f: "1 \<le> F_Score row" "F_Score row \<le> 5"
    and m: "1 \<le> M_Score row" "M_Score row \<le> 5"
    by simp_all
  from c str_int_digit [OF r] str_int_digit [OF f] str_int_digit [OF m]
  show ?thesis by simp
qed

theorem RFM_Score_three_digits_witness:
  "score_rfm (rfm_table three_sales) = Inr three_scored
   \<and> three_scored ! 1 \<in> set three_scored
   \<and> RFM_Score (three_scored ! 1) = ''333''
   \<and> length (RFM_Score (three_scored ! 1)) = 3
   \<and> set (RFM_Score (three_scored ! 1)) \<subseteq> set ''12345''"
proof -
  have m: "three_scored ! 1 \<in> set three_scored" by (simp add: three_scored_def)
  have v: "RFM_Score (three_scored ! 1) = ''333''" by (simp add: three_scored_def)
  from RFM_Score_three_digits [OF score_three_sales m] m v score_three_sales
  show ?thesis by simp
qed

section \<open>Ranks in first-seen order\<close>


















section \<open>Binning the ranks 1 to n\<close>



















section \<open>The three score columns\<close>











text \<open>Monetary values with the same ties get the unbalanced scores 1, 1, 1, 1, 3, 3, 4, 4, 5, 5.\<close>

lemma qcut_ties_unbalanced:
  "qcut [10, 20, 20, 20, 30, 40, 50, 60, 70, 80] 5 [1, 2, 3, 4, 5]
     = Inr [1, 1, 1, 1, 3, 3, 4, 4, 5, 5]"
  by code_simp






section \<open>One row per customer and the Country merge\<close>

lemma CustomerID_add_segment: "CustomerID (add_segment row) = CustomerID row"
  by (simp add: add_segment_def scored_row.defs segment_row.defs)

lemma CustomerID_with_country: "CustomerID (with_country c row) = CustomerID row"
  by (simp add: with_country_def segment_row.defs report_row.defs)

lemma CustomerID_score_rfm:
  assumes "score_rfm rfm = Inr scored"
  shows "map CustomerID scored = map CustomerID rfm"
proof -
  from assms obtain rs fs ms where
    "scored = map (\<lambda>i. add_scores (rfm ! i) (rs ! i) (fs ! i) (ms ! i)) [0..<length rfm]"
    by (rule score_rfm_Inr)
  then have "map CustomerID scored = map (\<lambda>i. CustomerID (rfm ! i)) [0..<length rfm]"
    by (simp add: add_scores_simps comp_def)
  also have "\<dots> = map CustomerID (map (\<lambda>i. rfm ! i) [0..<length rfm])"
    by (simp add: comp_def)
  also have "\<dots> = map CustomerID rfm" by (simp only: map_nth)
  finally show ?thesis .
qed

text \<open>
  Without a Country column the table is not merged, and the final table has one row for
  each customer of the cleaned table.
\<close>

lemma run_without_Country_one_row_per_customer:
  assumes "run input = Inr out" and "''Country'' \<notin> set (columns input)"
  shows "distinct (map CustomerID out)
    \<and> set (map CustomerID out) = CustomerID ` set (preprocess input)"
proof -
  from assms(1) have v: "validate input = Inr input"
    by (auto simp: run_def validate_def split: if_splits)
  with assms obtain scored where s: "score_rfm (rfm_table (preprocess input)) = Inr scored"
    and out: "out = map (with_country None) (map add_segment scored)"
    by (auto simp: run_def Let_def split: sum.splits)
  from out have "map CustomerID out = map CustomerID scored"
    by (simp add: comp_def CustomerID_with_country CustomerID_add_segment)
  with CustomerID_score_rfm [OF s]
  have "map CustomerID out = map CustomerID (rfm_table (preprocess input))" by simp
  with rfm_table_one_row_per_customer [of "preprocess input"] show ?thesis by simp
qed

text \<open>
  Claim C3. Before the merge the aggregate table has one row for each customer of the
  cleaned table (\<open>rfm_table_one_row_per_customer\<close>), and so has the final table when
  the input has no Country column. With a Country column the final table is the left
  merge with the distinct (CustomerID, Country) pairs, and on \<open>two_country_input\<close>
  customer 1, who has invoices from two countries, appears in two rows of the final
  table: the claim fails there.
\<close>

theorem merge_country_duplicates_customer:
  "\<not> isl (run two_country_input)
   \<and> remdups (map CustomerID (preprocess two_country_input)) = [1, 2, 3, 4, 5]
   \<and> map CustomerID (rfm_table (preprocess two_country_input)) = [1, 2, 3, 4, 5]
   \<and> map CustomerID (projr (run two_country_input)) = [1, 1, 2, 3, 4, 5]
   \<and> map rfm_Country (projr (run two_country_input)) =
        [Some ''United Kingdom'', Some ''France'', Some ''United Kingdom'',
         Some ''United Kingdom'', Some ''United Kingdom'', Some ''United Kingdom'']
   \<and> count_list (map CustomerID (projr (run two_country_input))) 1 = 2"
  by code_simp

end
